theory Spec2Isabelle
  imports Main "HOL-Library.AList"
begin

section \<open>Characters and strings\<close>

text \<open>
  The scripts work on JavaScript strings. They are modelled as \<^typ>\<open>string\<close> (lists of
  8-bit characters); the case conversions are the ASCII ones, which keep the length of a
  string. The rule language and the candidate tokens are ASCII (letters \<open>A\<close>-\<open>Z\<close>, digits,
  commas, blanks); the length-changing special casings of Unicode are outside this model.
\<close>

definition isLower :: "char \<Rightarrow> bool" where
  "isLower c = (97 \<le> (of_char c :: nat) \<and> (of_char c :: nat) \<le> 122)"

definition isUpper :: "char \<Rightarrow> bool" where
  "isUpper c = (65 \<le> (of_char c :: nat) \<and> (of_char c :: nat) \<le> 90)"

definition isDigit :: "char \<Rightarrow> bool" where
  "isDigit c = (48 \<le> (of_char c :: nat) \<and> (of_char c :: nat) \<le> 57)"

text \<open>The characters matched by \<open>\s\<close> and removed by \<open>trim()\<close>, within ASCII:
  tab, line feed, vertical tab, form feed, carriage return and space.\<close>

definition isSpace :: "char \<Rightarrow> bool" where
  "isSpace c = ((9 \<le> (of_char c :: nat) \<and> (of_char c :: nat) \<le> 13) \<or> (of_char c :: nat) = 32)"

definition toUpperChar :: "char \<Rightarrow> char" where
  "toUpperChar c = (if isLower c then char_of ((of_char c :: nat) - 32) else c)"

definition toLowerChar :: "char \<Rightarrow> char" where
  "toLowerChar c = (if isUpper c then char_of ((of_char c :: nat) + 32) else c)"

definition toUpperCase :: "string \<Rightarrow> string" where
  "toUpperCase s = map toUpperChar s"

definition toLowerCase :: "string \<Rightarrow> string" where
  "toLowerCase s = map toLowerChar s"

text \<open>\<open>word[index]\<close>: the character at a position, \<open>undefined\<close> (here \<open>None\<close>) outside
  the string; no error is raised.\<close>

definition charAt :: "string \<Rightarrow> int \<Rightarrow> char option" where
  "charAt w i = (if 0 \<le> i \<and> i < int (length w) then Some (w ! nat i) else None)"

section \<open>The rule set\<close>

text \<open>
  \<open>WordleRules\<close>: \<open>exact\<close> and \<open>present\<close> are JavaScript objects, modelled as association
  lists in the order in which \<open>for ... in\<close> enumerates their keys; \<open>absent\<close> is an array.
  Letters are single characters: the compiler only ever stores one-character strings.
  Numbers are integers (the scripts never produce a fraction; the rounding of numbers
  beyond \<open>2^53\<close> is outside this model).
\<close>

record rules =
  exact :: "(int \<times> char) list"
  present :: "(char \<times> int list) list"
  absent :: "char list"
  length_r :: int

section \<open>The rule compiler\<close>

text \<open>\<open>String.prototype.trim\<close> and \<open>String.prototype.split\<close> with a one-character
  separator (\<open>"".split(",")\<close> is \<open>[""]\<close>).\<close>

definition trim :: "string \<Rightarrow> string" where
  "trim s = rev (dropWhile isSpace (rev (dropWhile isSpace s)))"

fun split :: "char \<Rightarrow> string \<Rightarrow> string list" where
  "split sep [] = [[]]"
| "split sep (c # cs) =
     (if c = sep then [] # split sep cs
      else (case split sep cs of [] \<Rightarrow> [[c]] | p # ps \<Rightarrow> (c # p) # ps))"

text \<open>\<open>parseInt(s, 10)\<close>: leading white space, an optional sign, then the longest run of
  decimal digits; \<open>NaN\<close> (here \<open>None\<close>) when that run is empty.\<close>

definition digitVal :: "char \<Rightarrow> nat" where
  "digitVal c = (of_char c :: nat) - 48"

definition decimalValue :: "string \<Rightarrow> nat" where
  "decimalValue ds = foldl (\<lambda>a c. 10 * a + digitVal c) 0 ds"

definition parseInt :: "string \<Rightarrow> int option" where
  "parseInt s =
     (let t = dropWhile isSpace s;
          neg = (t \<noteq> [] \<and> hd t = CHR ''-'');
          u = (if t \<noteq> [] \<and> (hd t = CHR ''-'' \<or> hd t = CHR ''+'') then tl t else t);
          ds = takeWhile isDigit u
      in if ds = [] then None
         else Some (if neg then - int (decimalValue ds) else int (decimalValue ds)))"

text \<open>The four line patterns. Each function returns the capture groups of the
  regular expression of the source, or \<open>None\<close> when the line does not match.\<close>

text \<open>\<^verbatim>\<open>/^([A-Z]) AT (\d)$/\<close>\<close>

definition exactMatch :: "string \<Rightarrow> (char \<times> string) option" where
  "exactMatch line =
     (case line of
        [l, s1, a, t, s2, d] \<Rightarrow>
          if isUpper l \<and> [s1, a, t, s2] = '' AT '' \<and> isDigit d then Some (l, [d]) else None
      | _ \<Rightarrow> None)"

text \<open>\<^verbatim>\<open>/^NO\s+([A-Z, ]+)$/\<close>: the greedy \<open>\s+\<close> takes the whole run of white space
  after \<open>NO\<close>; it gives back one blank only when nothing else is left for the group.\<close>

definition absentClass :: "char \<Rightarrow> bool" where
  "absentClass c = (isUpper c \<or> c = CHR '','' \<or> c = CHR '' '')"

definition absentMatch :: "string \<Rightarrow> string option" where
  "absentMatch line =
     (if take 2 line = ''NO'' then
        (let ws = takeWhile isSpace (drop 2 line); g = dropWhile isSpace (drop 2 line)
         in if ws = [] then None
            else if g = [] then
              (if 2 \<le> length ws \<and> last ws = CHR '' '' then Some '' '' else None)
            else if list_all absentClass g then Some g else None)
      else None)"

text \<open>\<^verbatim>\<open>/^([A-Z]) IN WORD/\<close>\<close>

definition presentMatch :: "string \<Rightarrow> char option" where
  "presentMatch line =
     (case line of
        [] \<Rightarrow> None
      | l # rest \<Rightarrow> if isUpper l \<and> take 8 rest = '' IN WORD'' then Some l else None)"

text \<open>\<^verbatim>\<open>/NOT AT ([\d, ]+)$/\<close>, not anchored on the left: the leftmost position at which
  the pattern matches up to the end of the line.\<close>

definition notAtClass :: "char \<Rightarrow> bool" where
  "notAtClass c = (isDigit c \<or> c = CHR '','' \<or> c = CHR '' '')"

fun notAtMatch :: "string \<Rightarrow> string option" where
  "notAtMatch [] = None"
| "notAtMatch (c # cs) =
     (if take 7 (c # cs) = ''NOT AT '' \<and> drop 7 (c # cs) \<noteq> [] \<and> list_all notAtClass (drop 7 (c # cs))
      then Some (drop 7 (c # cs))
      else notAtMatch cs)"

text \<open>\<^verbatim>\<open>/^LENGTH:\s*(\d+)$/\<close>\<close>

definition lengthMatch :: "string \<Rightarrow> string option" where
  "lengthMatch line =
     (if take 7 line = ''LENGTH:'' then
        (let ds = dropWhile isSpace (drop 7 line)
         in if ds \<noteq> [] \<and> list_all isDigit ds then Some ds else None)
      else None)"

text \<open>\<open>rules.exact[k] = v\<close>: an object enumerates its integer keys in ascending order,
  and a second assignment to a key replaces its value.\<close>

fun exactPut :: "int \<Rightarrow> char \<Rightarrow> (int \<times> char) list \<Rightarrow> (int \<times> char) list" where
  "exactPut k v [] = [(k, v)]"
| "exactPut k v ((k', v') # al) =
     (if k < k' then (k, v) # (k', v') # al
      else if k = k' then (k, v) # al
      else (k', v') # exactPut k v al)"

text \<open>The letters of an absence line:
  \<^verbatim>\<open>split(',').map(l => l.trim()).filter(l => l.length === 1)\<close>.\<close>

definition absentLetters :: "string \<Rightarrow> char list" where
  "absentLetters g = map hd (filter (\<lambda>l. length l = 1) (map trim (split CHR '','' g)))"

text \<open>The disallowed positions of a presence line:
  \<^verbatim>\<open>split(',').map(p => parseInt(p.trim(), 10) - 1).filter(p => p >= 0)\<close>;
  \<open>NaN - 1\<close> is \<open>NaN\<close>, and \<open>NaN >= 0\<close> is false.\<close>

definition notAtPositions :: "string \<Rightarrow> int list" where
  "notAtPositions g =
     List.map_filter
       (\<lambda>p. case parseInt (trim p) of
              None \<Rightarrow> None
            | Some n \<Rightarrow> if n - 1 \<ge> 0 then Some (n - 1) else None)
       (split CHR '','' g)"

text \<open>The body of the loop over the lines: the first pattern that applies wins. An
  exact-position line whose digit is \<open>0\<close> is not stored and falls through to the
  other patterns.\<close>

definition parseLine :: "rules \<Rightarrow> string \<Rightarrow> rules" where
  "parseLine r line =
     (let stored =
        (case exactMatch line of
           None \<Rightarrow> None
         | Some (l, d) \<Rightarrow>
             (case parseInt d of
                None \<Rightarrow> None
              | Some position \<Rightarrow>
                  if position \<ge> 1 \<and> position \<le> 9
                  then Some (r\<lparr>exact := exactPut (position - 1) l (exact r)\<rparr>)
                  else None))
      in case stored of
        Some r' \<Rightarrow> r'
      | None \<Rightarrow>
          (case absentMatch line of
             Some g \<Rightarrow> r\<lparr>absent := absent r @ absentLetters g\<rparr>
           | None \<Rightarrow>
               (case presentMatch line of
                  Some letter \<Rightarrow>
                    r\<lparr>present :=
                        AList.update letter
                          (case notAtMatch line of None \<Rightarrow> [] | Some g \<Rightarrow> notAtPositions g)
                          (present r)\<rparr>
                | None \<Rightarrow>
                    (case lengthMatch line of
                       Some ds \<Rightarrow>
                         (case parseInt ds of None \<Rightarrow> r | Some n \<Rightarrow> r\<lparr>length_r := n\<rparr>)
                     | None \<Rightarrow> r))))"

definition defaultRules :: rules where
  "defaultRules = \<lparr>exact = [], present = [], absent = [], length_r = 5\<rparr>"

definition ruleLines :: "string \<Rightarrow> string list" where
  "ruleLines dslRules =
     filter (\<lambda>line. length line > 0) (map trim (split CHR 0x0A (toUpperCase dslRules)))"

definition parseRules :: "string \<Rightarrow> rules" where
  "parseRules dslRules = foldl parseLine defaultRules (ruleLines dslRules)"

section \<open>The constraint evaluator\<close>

text \<open>The three loops of \<open>checkRules\<close>; each returns \<open>False\<close> where the source executes
  \<open>return false\<close> and \<open>True\<close> when the loop runs to its end.\<close>

primrec exactLoop :: "string \<Rightarrow> (int \<times> char) list \<Rightarrow> int list \<Rightarrow> bool" where
  "exactLoop word ex [] = True"
| "exactLoop word ex (index # rest) =
     (if charAt word index \<noteq> map_of ex index then False else exactLoop word ex rest)"

primrec absentLoop :: "string \<Rightarrow> char list \<Rightarrow> bool" where
  "absentLoop word [] = True"
| "absentLoop word (letter # rest) =
     (if letter \<in> set word then False else absentLoop word rest)"

primrec disallowedLoop :: "string \<Rightarrow> char \<Rightarrow> int list \<Rightarrow> bool" where
  "disallowedLoop word letter [] = True"
| "disallowedLoop word letter (index # rest) =
     (if charAt word index = Some letter then False else disallowedLoop word letter rest)"

primrec presentLoop :: "string \<Rightarrow> (char \<times> int list) list \<Rightarrow> char list \<Rightarrow> bool" where
  "presentLoop word pr [] = True"
| "presentLoop word pr (letter # rest) =
     (if letter \<notin> set word then False
      else if \<not> disallowedLoop word letter (case map_of pr letter of None \<Rightarrow> [] | Some ps \<Rightarrow> ps)
        then False
      else presentLoop word pr rest)"

text \<open>The statement at which \<open>checkRules\<close> returns: one of its four \<open>return false\<close>,
  in the order of the source, or the final \<open>return true\<close>.\<close>

datatype verdict = RejectLength | RejectExact | RejectAbsent | RejectPresent | Accept

definition checkRulesAt :: "string \<Rightarrow> rules \<Rightarrow> verdict" where
  "checkRulesAt word0 r =
     (let word = toUpperCase word0 in
      if int (length word) \<noteq> length_r r then RejectLength
      else if \<not> exactLoop word (exact r) (map fst (exact r)) then RejectExact
      else if \<not> absentLoop word (absent r) then RejectAbsent
      else if \<not> presentLoop word (present r) (map fst (present r)) then RejectPresent
      else Accept)"

definition checkRules :: "string \<Rightarrow> rules \<Rightarrow> bool" where
  "checkRules word r = (checkRulesAt word r = Accept)"

section \<open>The retrying request executor\<close>

text \<open>\<open>response.ok\<close>: the status is in the range 200-299.\<close>

definition ok :: "nat \<Rightarrow> bool" where
  "ok status = (200 \<le> status \<and> status \<le> 299)"

text \<open>
  What one attempt of \<open>handleGeminiApiCall\<close> meets: a response (its status, its status
  text and what \<open>response.json()\<close> gives), the abort of the attempt by its timer, or
  another rejection of \<open>fetch\<close> with its message. \<open>response.json()\<close> fails to parse, or
  gives the payload; with the payload comes what \<open>errorBody.error?.message\<close> evaluates
  to on it: a \<open>TypeError\<close> when the payload is \<open>null\<close>, \<open>undefined\<close>, or the message.
\<close>

datatype errorMessage = OfNull | NoMessage | Message string

datatype 'p body = Unparsable | Parsed 'p errorMessage

datatype 'p attempt = Response nat string "'p body" | Aborted | Rejected string

datatype error =
    ApiKeyRequired
  | StatusFailure nat string
  | TimedOut
  | JsonSyntaxError
  | TypeError
  | RequestFailed string
  | AllRetriesFailed

text \<open>The \<open>try\<close> block of one attempt: it returns the payload, completes after the wait
  of the rate-limit branch, or throws. Every \<open>throw\<close> of the block, also the one of
  its last \<open>else\<close> branch, is inside the \<open>try\<close>.\<close>

datatype 'p tried = Returned 'p | Waited | Threw error

definition tryBlock :: "nat \<Rightarrow> nat \<Rightarrow> 'p attempt \<Rightarrow> 'p tried" where
  "tryBlock maxRetries i a =
     (case a of
        Response status statusText b \<Rightarrow>
          if ok status then
            (case b of Parsed p m \<Rightarrow> Returned p | Unparsable \<Rightarrow> Threw JsonSyntaxError)
          else if status = 429 \<and> int i < int maxRetries - 1 then Waited
          else
            (case b of
               Unparsable \<Rightarrow> Threw (StatusFailure status statusText)
             | Parsed p OfNull \<Rightarrow> Threw TypeError
             | Parsed p NoMessage \<Rightarrow> Threw (StatusFailure status statusText)
             | Parsed p (Message m) \<Rightarrow>
                 Threw (StatusFailure status (if m \<noteq> [] then m else statusText)))
      | Aborted \<Rightarrow> Threw TimedOut
      | Rejected m \<Rightarrow> Threw (RequestFailed m))"

text \<open>The loop over the attempts, with the \<open>catch\<close> block: the error of the last
  attempt is thrown again, any other is followed by a wait and the next attempt. The
  list collects the delays waited, in order.\<close>

function attemptLoop ::
  "(nat \<Rightarrow> 'p attempt) \<Rightarrow> nat \<Rightarrow> nat \<Rightarrow> nat \<Rightarrow> nat list \<Rightarrow> (error + 'p) \<times> nat list" where
  "attemptLoop outcome maxRetries i delay waits =
     (if i < maxRetries then
        (case tryBlock maxRetries i (outcome i) of
           Returned p \<Rightarrow> (Inr p, waits)
         | Waited \<Rightarrow> attemptLoop outcome maxRetries (i + 1) (delay * 2) (waits @ [delay])
         | Threw e \<Rightarrow>
             if int i = int maxRetries - 1 then (Inl e, waits)
             else attemptLoop outcome maxRetries (i + 1) (delay * 2) (waits @ [delay]))
      else (Inl AllRetriesFailed, waits))"
  by pat_completeness auto
termination
  by (relation "measure (\<lambda>(outcome, maxRetries, i, delay, waits). maxRetries - i)") auto

definition handleGeminiApiCall ::
  "string \<Rightarrow> (nat \<Rightarrow> 'p attempt) \<Rightarrow> nat \<Rightarrow> nat \<Rightarrow> (error + 'p) \<times> nat list" where
  "handleGeminiApiCall apiKey outcome maxRetries delay =
     (if apiKey = [] then (Inl ApiKeyRequired, [])
      else attemptLoop outcome maxRetries 0 delay [])"

section \<open>The external validator\<close>

text \<open>The decimal form of a number in a template string.\<close>

definition digitChar :: "nat \<Rightarrow> char" where
  "digitChar d = char_of (48 + d)"

function decimal :: "nat \<Rightarrow> string" where
  "decimal n = (if n < 10 then [digitChar n] else decimal (n div 10) @ [digitChar (n mod 10)])"
  by pat_completeness auto
termination
  by (relation "measure id") auto

definition numberToString :: "int \<Rightarrow> string" where
  "numberToString n = (if n < 0 then CHR ''-'' # decimal (nat (- n)) else decimal (nat n))"

text \<open>What the lookup service answers to one request: a response with its status, or
  a rejection of \<open>fetch\<close> (a network failure).\<close>

datatype lookup = Status nat | NetworkFailure

type_synonym cache = "string \<rightharpoonup> bool"

definition cacheKey :: "string \<Rightarrow> int \<Rightarrow> string" where
  "cacheKey word requiredLength = word @ '':'' @ numberToString requiredLength"

text \<open>\<open>validateWordExistence\<close> with \<open>WORD_CACHE\<close> passed in and returned; the third
  component lists the words requested from the lookup service by this call.\<close>

definition validateWordExistence ::
  "cache \<Rightarrow> (string \<Rightarrow> lookup) \<Rightarrow> string \<Rightarrow> int \<Rightarrow> bool \<times> cache \<times> string list" where
  "validateWordExistence WORD_CACHE fetch word0 requiredLength =
     (let word = toLowerCase word0; key = cacheKey word requiredLength in
      case WORD_CACHE key of
        Some v \<Rightarrow> (v, WORD_CACHE, [])
      | None \<Rightarrow>
          if int (length word) \<noteq> requiredLength then (False, WORD_CACHE(key \<mapsto> False), [])
          else
            (case fetch word of
               Status status \<Rightarrow>
                 if ok status then (True, WORD_CACHE(key \<mapsto> True), [word])
                 else if status = 404 then (False, WORD_CACHE(key \<mapsto> False), [word])
                 else (True, WORD_CACHE(key \<mapsto> True), [word])
             | NetworkFailure \<Rightarrow> (True, WORD_CACHE(key \<mapsto> True), [word])))"

section \<open>The paginated collector\<close>

text \<open>\<^verbatim>\<open>html.replace(/<b>|<\/b>/g, '')\<close>\<close>

function removeBold :: "string \<Rightarrow> string" where
  "removeBold s =
     (if s = [] then []
      else if take 3 s = ''<b>'' then removeBold (drop 3 s)
      else if take 4 s = ''</b>'' then removeBold (drop 4 s)
      else hd s # removeBold (tl s))"
  by pat_completeness auto
termination
  by (relation "measure length") auto

text \<open>\<^verbatim>\<open>cleanHtml.replace(/<span class=rd>(.*?)<\/span>/g, '')\<close>: the lazy group ends
  at the first closing tag, and \<open>.\<close> matches no line terminator. \<open>spanClose s\<close> is
  the number of characters of \<open>s\<close> matched by \<^verbatim>\<open>(.*?)<\/span>\<close>.\<close>

definition isLineTerminator :: "char \<Rightarrow> bool" where
  "isLineTerminator c = (c = CHR 0x0A \<or> c = CHR 0x0D)"

fun spanClose :: "string \<Rightarrow> nat option" where
  "spanClose [] = None"
| "spanClose (c # cs) =
     (if take 7 (c # cs) = ''</span>'' then Some 7
      else if isLineTerminator c then None
      else map_option Suc (spanClose cs))"

function removeRedSpans :: "string \<Rightarrow> string" where
  "removeRedSpans s =
     (if s = [] then []
      else if take 15 s = ''<span class=rd>'' then
        (case spanClose (drop 15 s) of
           Some n \<Rightarrow> removeRedSpans (drop (15 + n) s)
         | None \<Rightarrow> hd s # removeRedSpans (tl s))
      else hd s # removeRedSpans (tl s))"
  by pat_completeness auto
termination
  by (relation "measure length") auto

text \<open>The matches of \<^verbatim>\<open>/\b([A-Z]{n})\b/g\<close> for \<open>n > 0\<close>, from left to right;
  \<open>prev\<close> is the character before the current position.\<close>

definition isWordChar :: "char \<Rightarrow> bool" where
  "isWordChar c = (isUpper c \<or> isLower c \<or> isDigit c \<or> c = CHR ''_'')"

function scanWords :: "nat \<Rightarrow> char option \<Rightarrow> string \<Rightarrow> string list" where
  "scanWords n prev s =
     (if n = 0 \<or> s = [] then []
      else if (case prev of None \<Rightarrow> True | Some p \<Rightarrow> \<not> isWordChar p)
            \<and> n \<le> length s \<and> list_all isUpper (take n s)
            \<and> (case drop n s of [] \<Rightarrow> True | c # cs \<Rightarrow> \<not> isWordChar c)
        then take n s # scanWords n (Some (last (take n s))) (drop n s)
      else scanWords n (Some (hd s)) (tl s))"
  by pat_completeness auto
termination
  by (relation "measure (\<lambda>(n, prev, s). length s)") auto

text \<open>
  \<open>extractWordsFromHtml\<close>. The result is \<open>None\<close> when the function does not return:
  for the length \<open>0\<close> the pattern matches the empty string at a word boundary, and the
  loop over \<open>exec\<close> finds that same match again and again. For a negative length the
  braces are literal characters, and no match has the required length.
\<close>

definition extractWordsFromHtml :: "string \<Rightarrow> int \<Rightarrow> string list option" where
  "extractWordsFromHtml html wordLength =
     (let cleanHtml = removeBold html;
          htmlWithoutRed = removeRedSpans cleanHtml
      in if wordLength < 0 then Some []
         else if wordLength = 0 then
           (if list_ex isWordChar htmlWithoutRed then None else Some [])
         else Some (scanWords (nat wordLength) None htmlWithoutRed))"

text \<open>\<^verbatim>\<open>html.match(/<link rel=next href=[^>]*page(\d+)\.htm>/)\<close>: \<open>nextLinkAt\<close> matches
  the pattern at the head of a string, \<open>nextLinkSearch\<close> finds the leftmost match.\<close>

definition nextLinkAt :: "string \<Rightarrow> string option" where
  "nextLinkAt s =
     (if take 20 s = ''<link rel=next href='' then
        (let rest = drop 20 s;
             seg = takeWhile (\<lambda>c. c \<noteq> CHR ''>'') rest;
             r = rev seg;
             ds = takeWhile isDigit (drop 4 r)
         in if length seg < length rest \<and> take 4 r = ''mth.'' \<and> ds \<noteq> []
               \<and> take 4 (drop (4 + length ds) r) = ''egap''
            then Some (rev ds) else None)
      else None)"

fun nextLinkSearch :: "string \<Rightarrow> string option" where
  "nextLinkSearch [] = None"
| "nextLinkSearch (c # cs) =
     (case nextLinkAt (c # cs) of Some ds \<Rightarrow> Some ds | None \<Rightarrow> nextLinkSearch cs)"

definition getNextPageNumber :: "string \<Rightarrow> int option" where
  "getNextPageNumber html =
     (case nextLinkSearch html of Some ds \<Rightarrow> parseInt ds | None \<Rightarrow> None)"

text \<open>\<open>Array.from(new Set(allWords))\<close>: the first occurrence of each word, in order.\<close>

definition uniqueWords :: "string list \<Rightarrow> string list" where
  "uniqueWords allWords = fold (\<lambda>w seen. if w \<in> set seen then seen else seen @ [w]) allWords []"

text \<open>What \<open>fetch(pageUrl)\<close> meets: a response with its status and its text, or a
  rejection.\<close>

datatype page = Page nat string | Unreachable

text \<open>
  The \<open>while\<close> loop of \<open>fetchWordListByPosition\<close>, with its \<open>try\<close>/\<open>catch\<close>. The server
  is a function from the page number of the requested URL to what the request meets.
  The loop has no bound of its own: the model runs at most \<open>fuel\<close> iterations. The
  first component of the result lists the page numbers requested so far, in order; the
  second is the returned array, or \<open>None\<close> when the function has not returned.
\<close>

fun pageLoop ::
  "nat \<Rightarrow> (nat \<Rightarrow> page) \<Rightarrow> int \<Rightarrow> nat \<Rightarrow> string list \<Rightarrow> nat list
     \<Rightarrow> nat list \<times> string list option" where
  "pageLoop 0 server wordLength currentPage allWords fetched = (fetched, None)"
| "pageLoop (Suc fuel) server wordLength currentPage allWords fetched =
     (case server currentPage of
        Unreachable \<Rightarrow> (fetched @ [currentPage], Some [])
      | Page status html \<Rightarrow>
          if \<not> ok status then
            (if status = 404 \<and> currentPage > 1
             then (fetched @ [currentPage], Some (uniqueWords allWords))
             else (fetched @ [currentPage], Some []))
          else
            (case extractWordsFromHtml html wordLength of
               None \<Rightarrow> (fetched @ [currentPage], None)
             | Some pageWords \<Rightarrow>
                 (case getNextPageNumber html of
                    Some nextPageNum \<Rightarrow>
                      if nextPageNum \<noteq> 0 \<and> nextPageNum = int currentPage + 1
                      then pageLoop fuel server wordLength (nat nextPageNum)
                             (allWords @ pageWords) (fetched @ [currentPage])
                      else (fetched @ [currentPage], Some (uniqueWords (allWords @ pageWords)))
                  | None \<Rightarrow>
                      (fetched @ [currentPage], Some (uniqueWords (allWords @ pageWords))))))"

definition fetchWordListByPosition ::
  "nat \<Rightarrow> (nat \<Rightarrow> page) \<Rightarrow> rules \<Rightarrow> nat list \<times> string list option" where
  "fetchWordListByPosition fuel server r =
     (if length (map fst (exact r)) = 0 then ([], Some [])
      else pageLoop fuel server (length_r r) 1 [] [])"

section \<open>The four checks, as the specification words them\<close>

text \<open>The checks of the specification on a token \<open>W\<close> and a rule set \<open>R\<close>, stated on
  the token itself, and the first of them that fails.\<close>

definition lengthCheck :: "string \<Rightarrow> rules \<Rightarrow> bool" where
  "lengthCheck W R = (int (length W) = length_r R)"

definition exactCheck :: "string \<Rightarrow> rules \<Rightarrow> bool" where
  "exactCheck W R =
     (\<forall>p \<in> set (map fst (exact R)).
        0 \<le> p \<and> p < int (length W) \<and> map_of (exact R) p = Some (W ! nat p))"

definition absentCheck :: "string \<Rightarrow> rules \<Rightarrow> bool" where
  "absentCheck W R = (\<forall>L \<in> set (absent R). L \<notin> set W)"

definition presentCheck :: "string \<Rightarrow> rules \<Rightarrow> bool" where
  "presentCheck W R =
     (\<forall>L \<in> set (map fst (present R)). L \<in> set W \<and>
        (case map_of (present R) L of
           None \<Rightarrow> True
         | Some ps \<Rightarrow> \<forall>i \<in> set ps. \<not> (0 \<le> i \<and> i < int (length W) \<and> W ! nat i = L)))"

definition firstFailing :: "string \<Rightarrow> rules \<Rightarrow> verdict" where
  "firstFailing W R =
     (if \<not> lengthCheck W R then RejectLength
      else if \<not> exactCheck W R then RejectExact
      else if \<not> absentCheck W R then RejectAbsent
      else if \<not> presentCheck W R then RejectPresent
      else Accept)"

section \<open>The validator's verdict, as the specification words it\<close>

text \<open>A success response gives \<open>true\<close>, a "not found" response gives \<open>false\<close>, any other
  outcome, a network failure included, gives \<open>true\<close>.\<close>

definition lookupVerdict :: "lookup \<Rightarrow> bool" where
  "lookupVerdict l =
     (case l of
        Status status \<Rightarrow> (if ok status then True else if status = 404 then False else True)
      | NetworkFailure \<Rightarrow> True)"

section \<open>Tokens that differ only in letter case\<close>

text \<open>Two characters are case variants when they are equal or one is an upper-case
  letter and the other the lower-case letter 32 code points above it.\<close>

definition caseVariant :: "char \<Rightarrow> char \<Rightarrow> bool" where
  "caseVariant c d =
     (c = d
      \<or> (isUpper c \<and> (of_char d :: nat) = of_char c + 32)
      \<or> (isUpper d \<and> (of_char c :: nat) = of_char d + 32))"

definition sameIgnoringCase :: "string \<Rightarrow> string \<Rightarrow> bool" where
  "sameIgnoringCase W W' = list_all2 caseVariant W W'"

section \<open>Rule sets without the positions past the end of a token\<close>

definition withoutPastEnd :: "string \<Rightarrow> rules \<Rightarrow> rules" where
  "withoutPastEnd W R =
     R\<lparr>present := map (\<lambda>(l, ps). (l, filter (\<lambda>i. i < int (length W)) ps)) (present R)\<rparr>"

section \<open>The compiler's output, as the specification words it\<close>


definition positionsFromDigits :: "rules \<Rightarrow> bool" where
  "positionsFromDigits R =
     ((\<forall>k \<in> set (map fst (exact R)). 0 \<le> k \<and> k \<le> 8)
      \<and> (\<forall>ps \<in> set (map snd (present R)). \<forall>p \<in> set ps. 0 \<le> p \<and> p \<le> 8))"

section \<open>Failed pages\<close>

text \<open>A page fetch fails when \<open>fetch\<close> rejects or the response is not a success; it is
  "not found" when the response has status 404.\<close>

definition pageFailed :: "page \<Rightarrow> bool" where
  "pageFailed pg = (case pg of Unreachable \<Rightarrow> True | Page status html \<Rightarrow> \<not> ok status)"

definition notFound :: "page \<Rightarrow> bool" where
  "notFound pg = (case pg of Unreachable \<Rightarrow> False | Page status html \<Rightarrow> status = 404)"

section \<open>Example inputs\<close>

definition scenarioA :: rules where
  "scenarioA =
     \<lparr>exact = [(2, CHR ''O'')], present = [(CHR ''A'', [])], absent = ''STRE'', length_r = 5\<rparr>"

definition pastEndRules :: rules where
  "pastEndRules =
     \<lparr>exact = [(0, CHR ''G'')], present = [(CHR ''A'', [1, 5, 9])], absent = ''S'', length_r = 5\<rparr>"

definition pastEndExact :: rules where
  "pastEndExact =
     \<lparr>exact = [(0, CHR ''G''), (5, CHR ''X'')], present = [], absent = [], length_r = 5\<rparr>"

definition conflictText :: string where
  "conflictText = ''no A'' @ [CHR 0x0A] @ ''A in word''"

definition networkDown :: "string \<Rightarrow> lookup" where
  "networkDown w = NetworkFailure"

definition serverError :: "nat \<Rightarrow> nat attempt" where
  "serverError i =
     (if i = 0 then Response 500 ''Internal Server Error'' (Parsed 0 (Message ''backend down''))
      else Response 200 ''OK'' (Parsed 7 NoMessage))"

definition pageOne :: string where
  "pageOne = ''<link rel=next href=wordspage2.htm> AB<b>O</b>DE ABOUT <span class=rd>ABOHM</span> ABODE''"

definition pageTwo :: string where
  "pageTwo = ''ABOUT ABOVE''"

definition twoPages :: "nat \<Rightarrow> page" where
  "twoPages p = (if p = 1 then Page 200 pageOne else if p = 2 then Page 200 pageTwo else Page 404 [])"

definition thenMissing :: "nat \<Rightarrow> page" where
  "thenMissing p = (if p = 1 then Page 200 pageOne else Page 404 [])"

definition seedA :: rules where
  "seedA = \<lparr>exact = [(0, CHR ''A'')], present = [], absent = [], length_r = 5\<rparr>"


definition zeroText :: string where
  "zeroText = ''A at 1'' @ [CHR 0x0A] @ ''LENGTH: 0''"

definition positionsText :: string where
  "positionsText = ''o at 3'' @ [CHR 0x0A] @ ''A in word, not at 12''"

section \<open>Properties of the evaluator\<close>

lemma exactLoop_iff:
  "exactLoop word ex ks \<longleftrightarrow> (\<forall>k \<in> set ks. charAt word k = map_of ex k)"
  by (induction ks) auto

lemma absentLoop_iff: "absentLoop word ls \<longleftrightarrow> (\<forall>l \<in> set ls. l \<notin> set word)"
  by (induction ls) auto

lemma disallowedLoop_iff:
  "disallowedLoop word l ps \<longleftrightarrow> (\<forall>i \<in> set ps. charAt word i \<noteq> Some l)"
  by (induction ps) auto

lemma presentLoop_iff:
  "presentLoop word pr ks \<longleftrightarrow>
     (\<forall>l \<in> set ks. l \<in> set word \<and>
        disallowedLoop word l (case map_of pr l of None \<Rightarrow> [] | Some ps \<Rightarrow> ps))"
  by (induction ks) auto

lemma exactLoop_exactCheck:
  "exactLoop word (exact R) (map fst (exact R)) = exactCheck word R"
proof -
  have "charAt word k = map_of (exact R) k \<longleftrightarrow>
        0 \<le> k \<and> k < int (length word) \<and> map_of (exact R) k = Some (word ! nat k)"
    if "k \<in> set (map fst (exact R))" for k
  proof -
    from that obtain c where "map_of (exact R) k = Some c"
      by (metis map_of_eq_None_iff not_Some_eq set_map)
    then show ?thesis by (auto simp: charAt_def)
  qed
  then show ?thesis
    unfolding exactLoop_iff exactCheck_def by blast
qed

lemma presentLoop_presentCheck:
  "presentLoop word (present R) (map fst (present R)) = presentCheck word R"
proof -
  have "disallowedLoop word l (case map_of (present R) l of None \<Rightarrow> [] | Some ps \<Rightarrow> ps) \<longleftrightarrow>
        (case map_of (present R) l of
           None \<Rightarrow> True
         | Some ps \<Rightarrow> \<forall>i \<in> set ps. \<not> (0 \<le> i \<and> i < int (length word) \<and> word ! nat i = l))"
    for l
    by (cases "map_of (present R) l") (auto simp: disallowedLoop_iff charAt_def)
  then show ?thesis
    unfolding presentLoop_iff presentCheck_def by simp
qed

lemma checkRulesAt_firstFailing:
  "checkRulesAt W R = firstFailing (toUpperCase W) R"
  by (simp add: checkRulesAt_def firstFailing_def Let_def lengthCheck_def
      exactLoop_exactCheck absentLoop_iff absentCheck_def presentLoop_presentCheck)

text \<open>
  C1. A candidate token is a token of upper-case letters, which \<open>toUpperCase\<close> leaves as
  it is. For every such token \<open>W\<close> and every rule set \<open>R\<close>, \<open>checkRules\<close> accepts \<open>W\<close> if
  and only if the four checks hold: the length of \<open>W\<close> is \<open>R.length\<close>; at every position
  that is a key of \<open>R.exact\<close> the token has the required letter; no letter of \<open>R.absent\<close>
  occurs in \<open>W\<close>; every letter that is a key of \<open>R.present\<close> occurs in \<open>W\<close>, at none of
  its disallowed positions. The checks are made in this order: the \<open>return\<close> statement
  reached is the one of the first check that fails. The verdict is a function of the
  token and the rule set alone.
\<close>

theorem checkRules_four_checks:
  assumes "toUpperCase W = W"
  shows "(checkRules W R \<longleftrightarrow>
            lengthCheck W R \<and> exactCheck W R \<and> absentCheck W R \<and> presentCheck W R)
         \<and> checkRulesAt W R = firstFailing W R"
  using assms by (simp add: checkRules_def checkRulesAt_firstFailing firstFailing_def)

theorem checkRules_four_checks_witness:
  "toUpperCase ''GLOAM'' = ''GLOAM'' \<and> checkRules ''GLOAM'' scenarioA
   \<and> lengthCheck ''GLOAM'' scenarioA \<and> exactCheck ''GLOAM'' scenarioA
   \<and> absentCheck ''GLOAM'' scenarioA \<and> presentCheck ''GLOAM'' scenarioA
   \<and> checkRulesAt ''GLOAM'' scenarioA = Accept"
proof -
  have u: "toUpperCase ''GLOAM'' = ''GLOAM''" by code_simp
  have a: "checkRules ''GLOAM'' scenarioA" by code_simp
  note t = checkRules_four_checks [OF u, of scenarioA]
  from t a have c: "lengthCheck ''GLOAM'' scenarioA \<and> exactCheck ''GLOAM'' scenarioA
      \<and> absentCheck ''GLOAM'' scenarioA \<and> presentCheck ''GLOAM'' scenarioA"
    by blast
  from t c have "checkRulesAt ''GLOAM'' scenarioA = Accept"
    by (simp add: firstFailing_def)
  with u a c show ?thesis by blast
qed

text \<open>
  C8, as the claim states it, fails. The claim: when a letter \<open>L\<close> is both in \<open>absent\<close>
  and a key of \<open>present\<close>, a token that contains \<open>L\<close> is rejected by the absence check.
  The rule text \<open>no A / A in word\<close> compiles to such a rule set, of length 5; the token
  \<open>PLANET\<close> contains \<open>A\<close> and is rejected by the length check, which comes first.
\<close>

theorem conflict_rejected_by_length_check:
  "CHR ''A'' \<in> set (absent (parseRules conflictText))
   \<and> CHR ''A'' \<in> set (map fst (present (parseRules conflictText)))
   \<and> CHR ''A'' \<in> set ''PLANET''
   \<and> \<not> checkRules ''PLANET'' (parseRules conflictText)
   \<and> checkRulesAt ''PLANET'' (parseRules conflictText) = RejectLength"
  by code_simp

text \<open>
  C8, amended. For every rule set in which a letter \<open>L\<close> is both in \<open>absent\<close> and a key
  of \<open>present\<close>, \<open>checkRules\<close> rejects every token. When the upper-cased token contains
  \<open>L\<close>, the rejection never comes from the presence check; it comes from the absence
  check whenever the token passes the length check and the exact-position check, which
  are made before it.
\<close>

theorem conflicting_letter_rejected:
  assumes "L \<in> set (absent R)" and "L \<in> set (map fst (present R))"
  shows "\<not> checkRules W R
         \<and> (L \<in> set (toUpperCase W) \<longrightarrow>
              checkRulesAt W R \<noteq> RejectPresent
              \<and> (lengthCheck (toUpperCase W) R \<and> exactCheck (toUpperCase W) R \<longrightarrow>
                   checkRulesAt W R = RejectAbsent))"
proof -
  have a: "\<not> absentCheck (toUpperCase W) R" if "L \<in> set (toUpperCase W)"
    using that assms(1) by (auto simp: absentCheck_def)
  have p: "\<not> presentCheck (toUpperCase W) R" if "L \<notin> set (toUpperCase W)"
    using that assms(2) by (auto simp: presentCheck_def)
  from a p show ?thesis
    by (auto simp: checkRules_def checkRulesAt_firstFailing firstFailing_def)
qed

theorem conflicting_letter_rejected_witness:
  "CHR ''A'' \<in> set (absent (parseRules conflictText))
   \<and> CHR ''A'' \<in> set (map fst (present (parseRules conflictText)))
   \<and> CHR ''A'' \<in> set (toUpperCase ''aback'')
   \<and> lengthCheck (toUpperCase ''aback'') (parseRules conflictText)
   \<and> exactCheck (toUpperCase ''aback'') (parseRules conflictText)
   \<and> \<not> checkRules ''aback'' (parseRules conflictText)
   \<and> checkRulesAt ''aback'' (parseRules conflictText) = RejectAbsent"
proof -
  have 1: "CHR ''A'' \<in> set (absent (parseRules conflictText))" by code_simp
  have 2: "CHR ''A'' \<in> set (map fst (present (parseRules conflictText)))" by code_simp
  have 3: "CHR ''A'' \<in> set (toUpperCase ''aback'')" by code_simp
  have 4: "lengthCheck (toUpperCase ''aback'') (parseRules conflictText)" by code_simp
  have 5: "exactCheck (toUpperCase ''aback'') (parseRules conflictText)" by code_simp
  from conflicting_letter_rejected [OF 1 2, of "''aback''"] 1 2 3 4 5
  show ?thesis by blast
qed

lemma length_toUpperCase [simp]: "length (toUpperCase W) = length W"
  by (simp add: toUpperCase_def)

lemma map_of_filtered:
  "map_of (map (\<lambda>(l, ps). (l, f ps)) al) l = map_option f (map_of al l)"
  by (induction al) auto

lemma keys_filtered: "fst \<circ> (\<lambda>(l, ps). (l, f ps)) = fst"
  by (auto simp: fun_eq_iff)

lemma disallowedLoop_filter:
  "disallowedLoop word l (filter (\<lambda>i. i < int (length word)) ps) = disallowedLoop word l ps"
  by (auto simp: disallowedLoop_iff charAt_def)

lemma presentLoop_withoutPastEnd:
  "presentLoop word (map (\<lambda>(l, ps). (l, filter (\<lambda>i. i < int (length word)) ps)) pr) ks
   = presentLoop word pr ks"
proof -
  have "disallowedLoop word l
          (case map_of (map (\<lambda>(l, ps). (l, filter (\<lambda>i. i < int (length word)) ps)) pr) l of
             None \<Rightarrow> [] | Some ps \<Rightarrow> ps)
        = disallowedLoop word l (case map_of pr l of None \<Rightarrow> [] | Some ps \<Rightarrow> ps)" for l
    by (cases "map_of pr l") (simp_all add: map_of_filtered disallowedLoop_filter)
  then show ?thesis by (simp add: presentLoop_iff)
qed

lemma checkRulesAt_withoutPastEnd:
  "checkRulesAt W (withoutPastEnd W R) = checkRulesAt W R"
proof -
  have p: "presentLoop (toUpperCase W) (present (withoutPastEnd W R))
             (map fst (present (withoutPastEnd W R)))
           = presentLoop (toUpperCase W) (present R) (map fst (present R))"
    using presentLoop_withoutPastEnd [of "toUpperCase W" "present R" "map fst (present R)"]
    by (simp add: withoutPastEnd_def keys_filtered)
  have e: "exact (withoutPastEnd W R) = exact R"
    and a: "absent (withoutPastEnd W R) = absent R"
    and l: "length_r (withoutPastEnd W R) = length_r R"
    by (simp_all add: withoutPastEnd_def)
  show ?thesis
    unfolding checkRulesAt_def Let_def p e a l by (rule refl)
qed

lemma exact_past_length_rejects:
  assumes "k \<in> set (map fst (exact R))" and "length_r R \<le> k"
  shows "checkRulesAt W R = RejectLength \<or> checkRulesAt W R = RejectExact"
proof (cases "int (length W) = length_r R")
  case False
  then show ?thesis by (simp add: checkRulesAt_def Let_def)
next
  case True
  from assms(1) obtain c where c: "map_of (exact R) k = Some c"
    by (metis map_of_eq_None_iff not_Some_eq set_map)
  from True assms(2) have "charAt (toUpperCase W) k = None"
    by (simp add: charAt_def)
  with c assms(1) have "\<not> exactLoop (toUpperCase W) (exact R) (map fst (exact R))"
    unfolding exactLoop_iff by force
  with True show ?thesis by (simp add: checkRulesAt_def Let_def)
qed

text \<open>
  C10. \<open>checkRules\<close> is a total function, and a position outside the token raises no
  error: \<open>word[index]\<close> is \<open>undefined\<close> there. If a key of \<open>R.exact\<close> is greater than or equal
  to \<open>R.length\<close>, every token is rejected. A disallowed position of \<open>R.present\<close> that is
  greater than or equal to the length of the token is inert: the rule set without these
  positions gives the same verdict, at the same \<open>return\<close> statement.
\<close>

theorem checkRules_out_of_range:
  "(\<forall>k \<in> set (map fst (exact R)). length_r R \<le> k \<longrightarrow> \<not> checkRules W R)
   \<and> checkRules W (withoutPastEnd W R) = checkRules W R
   \<and> checkRulesAt W (withoutPastEnd W R) = checkRulesAt W R"
proof -
  have "\<not> checkRules W R" if "k \<in> set (map fst (exact R))" and "length_r R \<le> k" for k
    using exact_past_length_rejects [OF that, of W] by (auto simp: checkRules_def)
  then show ?thesis
    by (simp add: checkRules_def checkRulesAt_withoutPastEnd)
qed

theorem checkRules_out_of_range_witness:
  "5 \<in> set (map fst (exact pastEndExact)) \<and> length_r pastEndExact \<le> 5
   \<and> \<not> checkRules ''GLOAM'' pastEndExact
   \<and> present (withoutPastEnd ''GLOAM'' pastEndRules) = [(CHR ''A'', [1])]
   \<and> checkRules ''GLOAM'' (withoutPastEnd ''GLOAM'' pastEndRules)
   \<and> checkRules ''GLOAM'' pastEndRules"
proof -
  have h: "5 \<in> set (map fst (exact pastEndExact)) \<and> length_r pastEndExact \<le> 5"
    by (simp add: pastEndExact_def)
  from checkRules_out_of_range [of pastEndExact "''GLOAM''"] h
  have 1: "\<not> checkRules ''GLOAM'' pastEndExact" by blast
  have 2: "present (withoutPastEnd ''GLOAM'' pastEndRules) = [(CHR ''A'', [1])]"
    by (simp add: withoutPastEnd_def pastEndRules_def)
  have 3: "checkRules ''GLOAM'' pastEndRules" by code_simp
  with checkRules_out_of_range [of pastEndRules "''GLOAM''"]
  have 4: "checkRules ''GLOAM'' (withoutPastEnd ''GLOAM'' pastEndRules)" by blast
  from h 1 2 3 4 show ?thesis by blast
qed

section \<open>Properties of the validator\<close>

lemma upper_lower_32:
  assumes "isUpper c" and "(of_char d :: nat) = of_char c + 32"
  shows "toUpperChar d = c" and "toUpperChar c = c" and "toLowerChar c = d" and "toLowerChar d = d"
proof -
  from assms have ld: "isLower d" and nud: "\<not> isUpper d" and nlc: "\<not> isLower c"
    by (auto simp: isUpper_def isLower_def)
  from assms(2) have "char_of ((of_char d :: nat) - 32) = char_of (of_char c :: nat)" by simp
  then show "toUpperChar d = c" using ld by (simp add: toUpperChar_def)
  show "toUpperChar c = c" using nlc by (simp add: toUpperChar_def)
  from assms(2) have "char_of ((of_char c :: nat) + 32) = char_of (of_char d :: nat)" by simp
  then show "toLowerChar c = d" using assms(1) by (simp add: toLowerChar_def)
  show "toLowerChar d = d" using nud by (simp add: toLowerChar_def)
qed

lemma toUpperChar_idem: "toUpperChar (toUpperChar c) = toUpperChar c"
proof (cases "isLower c")
  case True
  then have "(of_char c :: nat) - 32 < 256"
    unfolding isLower_def by linarith
  then have "((of_char c :: nat) - 32) mod 256 = of_char c - 32"
    by (rule mod_less)
  with True have "\<not> isLower (char_of ((of_char c :: nat) - 32))"
    unfolding isLower_def of_char_of by linarith
  with True show ?thesis by (simp add: toUpperChar_def)
next
  case False
  then show ?thesis by (simp add: toUpperChar_def)
qed

lemma toUpperCase_idem: "toUpperCase (toUpperCase W) = toUpperCase W"
  by (simp add: toUpperCase_def toUpperChar_idem)

lemma caseVariant_conv:
  "caseVariant c d \<Longrightarrow> toUpperChar c = toUpperChar d \<and> toLowerChar c = toLowerChar d"
  unfolding caseVariant_def using upper_lower_32 by metis

lemma sameIgnoringCase_conv:
  "sameIgnoringCase W W' \<Longrightarrow> toUpperCase W = toUpperCase W' \<and> toLowerCase W = toLowerCase W'"
  unfolding sameIgnoringCase_def toUpperCase_def toLowerCase_def
  by (induction W W' rule: list_all2_induct) (auto dest: caseVariant_conv)

lemma validate_by_lower:
  "toLowerCase W = toLowerCase W' \<Longrightarrow>
     validateWordExistence C f W N = validateWordExistence C f W' N"
  by (simp add: validateWordExistence_def)

lemma validate_cached:
  "C (cacheKey (toLowerCase W) N) = Some v \<Longrightarrow> validateWordExistence C f W N = (v, C, [])"
  by (simp add: validateWordExistence_def)

lemma validate_caches:
  "validateWordExistence C f W N = (v, C', reqs) \<Longrightarrow> C' (cacheKey (toLowerCase W) N) = Some v"
  by (auto simp: validateWordExistence_def Let_def split: option.splits if_splits lookup.splits)

lemma length_toLowerCase [simp]: "length (toLowerCase W) = length W"
  by (simp add: toLowerCase_def)

text \<open>
  C5. \<open>validateWordExistence\<close> decides in this order. If the cache has an entry for the
  key of the lower-cased word and the expected length \<open>N\<close>, it returns that entry, leaves
  the cache as it is and makes no request. Else, if the length of the word differs from
  \<open>N\<close>, it stores and returns \<open>false\<close> and makes no request. Else it makes one request
  for the lower-cased word, and stores and returns \<open>true\<close> on a success response, \<open>false\<close>
  on a 404 response and \<open>true\<close> on any other outcome. In particular, after a network
  failure for a word of the expected length it returns \<open>true\<close> and stores \<open>true\<close>, and a
  second call for the same key makes no request, whatever the service would answer.
\<close>

theorem validateWordExistence_order:
  "(\<forall>v. C (cacheKey (toLowerCase W) N) = Some v \<longrightarrow>
        validateWordExistence C f W N = (v, C, []))
   \<and> (C (cacheKey (toLowerCase W) N) = None \<and> int (length W) \<noteq> N \<longrightarrow>
        validateWordExistence C f W N = (False, C(cacheKey (toLowerCase W) N \<mapsto> False), []))
   \<and> (C (cacheKey (toLowerCase W) N) = None \<and> int (length W) = N \<longrightarrow>
        validateWordExistence C f W N =
          (lookupVerdict (f (toLowerCase W)),
           C(cacheKey (toLowerCase W) N \<mapsto> lookupVerdict (f (toLowerCase W))),
           [toLowerCase W]))
   \<and> (C (cacheKey (toLowerCase W) N) = None \<and> int (length W) = N
        \<and> f (toLowerCase W) = NetworkFailure \<longrightarrow>
        validateWordExistence C f W N = (True, C(cacheKey (toLowerCase W) N \<mapsto> True), [toLowerCase W])
        \<and> validateWordExistence (C(cacheKey (toLowerCase W) N \<mapsto> True)) f' W N
            = (True, C(cacheKey (toLowerCase W) N \<mapsto> True), []))"
  by (auto simp: validateWordExistence_def Let_def lookupVerdict_def split: lookup.splits)

theorem validateWordExistence_order_witness:
  "Map.empty (cacheKey (toLowerCase ''Hello'') 5) = (None :: bool option)
   \<and> int (length ''Hello'') = 5
   \<and> networkDown (toLowerCase ''Hello'') = NetworkFailure
   \<and> validateWordExistence Map.empty networkDown ''Hello'' 5
        = (True, [''hello:5'' \<mapsto> True], [''hello''])
   \<and> validateWordExistence [''hello:5'' \<mapsto> True] (\<lambda>w. Status 404) ''Hello'' 5
        = (True, [''hello:5'' \<mapsto> True], [])"
proof -
  have k: "cacheKey (toLowerCase ''Hello'') 5 = ''hello:5''" by code_simp
  have l: "toLowerCase ''Hello'' = ''hello''" by code_simp
  have h: "Map.empty (cacheKey (toLowerCase ''Hello'') 5) = (None :: bool option)
           \<and> int (length ''Hello'') = 5
           \<and> networkDown (toLowerCase ''Hello'') = NetworkFailure"
    by (simp add: networkDown_def)
  have k': "cacheKey ''hello'' 5 = ''hello:5''" by code_simp
  from validateWordExistence_order
         [of Map.empty "''Hello''" 5 networkDown "\<lambda>w. Status 404"] h
  show ?thesis by (simp add: l k' networkDown_def lookupVerdict_def)
qed

text \<open>
  C9. The evaluator and the validator are insensitive to letter case. \<open>checkRules\<close>
  gives the verdict of the upper-cased token, so two tokens that differ only in letter
  case get the same verdict. \<open>validateWordExistence\<close> forms its cache key and its request
  from the lower-cased word, so two casings of a word have the same key and, from the
  same cache and service, the same result; and after a call for one casing, a call for
  the other returns the stored verdict without a request.
\<close>

theorem case_insensitive:
  assumes "sameIgnoringCase W W'"
  shows "checkRules W R = checkRules (toUpperCase W) R
         \<and> checkRules W R = checkRules W' R
         \<and> cacheKey (toLowerCase W) N = cacheKey (toLowerCase W') N
         \<and> validateWordExistence C f W N = validateWordExistence C f W' N
         \<and> (\<forall>v C' reqs. validateWordExistence C f W N = (v, C', reqs) \<longrightarrow>
               validateWordExistence C' f' W' N = (v, C', []))"
proof -
  from assms have u: "toUpperCase W = toUpperCase W'" and l: "toLowerCase W = toLowerCase W'"
    by (simp_all add: sameIgnoringCase_conv)
  note uu = toUpperCase_idem [of W]
  have 1: "checkRules W R = checkRules (toUpperCase W) R"
    by (simp add: checkRules_def checkRulesAt_firstFailing uu)
  have 2: "checkRules W R = checkRules W' R"
    by (simp add: checkRules_def checkRulesAt_firstFailing u)
  have 5: "validateWordExistence C' f' W' N = (v, C', [])"
    if "validateWordExistence C f W N = (v, C', reqs)" for v C' reqs
    using validate_caches [OF that] by (simp add: l validate_cached)
  from 1 2 5 l validate_by_lower [OF l] show ?thesis by simp
qed

theorem case_insensitive_witness:
  "sameIgnoringCase ''gLoam'' ''GLOAM''
   \<and> checkRules ''gLoam'' scenarioA \<and> checkRules ''GLOAM'' scenarioA
   \<and> cacheKey (toLowerCase ''gLoam'') 5 = cacheKey (toLowerCase ''GLOAM'') 5
   \<and> validateWordExistence Map.empty networkDown ''gLoam'' 5
        = validateWordExistence Map.empty networkDown ''GLOAM'' 5
   \<and> validateWordExistence [''gloam:5'' \<mapsto> True] (\<lambda>w. Status 404) ''GLOAM'' 5
        = (True, [''gloam:5'' \<mapsto> True], [])"
proof -
  have s: "sameIgnoringCase ''gLoam'' ''GLOAM''"
    unfolding sameIgnoringCase_def by code_simp
  note t = case_insensitive [OF s, of scenarioA 5 Map.empty networkDown "\<lambda>w. Status 404"]
  have a: "checkRules ''GLOAM'' scenarioA" by code_simp
  have l: "toLowerCase ''gLoam'' = ''gloam''" by code_simp
  have k: "cacheKey ''gloam'' 5 = ''gloam:5''" by code_simp
  have v: "validateWordExistence Map.empty networkDown ''gLoam'' 5
             = (True, [''gloam:5'' \<mapsto> True], [''gloam''])"
    by (simp add: validateWordExistence_def l k networkDown_def)
  from t v have c: "validateWordExistence [''gloam:5'' \<mapsto> True] (\<lambda>w. Status 404) ''GLOAM'' 5
        = (True, [''gloam:5'' \<mapsto> True], [])"
    by blast
  from t a have b: "checkRules ''gLoam'' scenarioA" by blast
  from t have d: "cacheKey (toLowerCase ''gLoam'') 5 = cacheKey (toLowerCase ''GLOAM'') 5"
    and e: "validateWordExistence Map.empty networkDown ''gLoam'' 5
        = validateWordExistence Map.empty networkDown ''GLOAM'' 5"
    by blast+
  from s a b c d e show ?thesis by blast
qed

section \<open>Properties of the compiler\<close>

lemma parseInt_digits:
  assumes "ds \<noteq> []" and "list_all isDigit ds"
  shows "parseInt ds = Some (int (decimalValue ds))"
proof -
  from assms obtain d rest where ds: "ds = d # rest" and d: "isDigit d"
    by (cases ds) auto
  from d have ns: "\<not> isSpace d" and nm: "d \<noteq> CHR ''-''" and np: "d \<noteq> CHR ''+''"
    by (auto simp: isDigit_def isSpace_def)
  from assms(2) have tw: "takeWhile isDigit ds = ds"
    by (simp add: list_all_iff)
  from ds ns have dw: "dropWhile isSpace ds = ds" by simp
  show ?thesis
    unfolding parseInt_def Let_def dw using ds nm np tw by simp
qed








lemma exactMatch_shape:
  assumes "exactMatch line = Some (l, ds)"
  shows "\<exists>d. ds = [d] \<and> isDigit d \<and> isUpper l
             \<and> line = [l, CHR '' '', CHR ''A'', CHR ''T'', CHR '' '', d]"
proof -
  from assms obtain a b c d e f where line: "line = [a, b, c, d, e, f]"
    unfolding exactMatch_def
    by (auto split: list.splits)
  with assms show ?thesis
    by (auto simp: exactMatch_def split: if_splits)
qed

lemma parseInt_digit: "isDigit d \<Longrightarrow> parseInt [d] = Some (int (digitVal d))"
  using parseInt_digits [of "[d]"] by (simp add: decimalValue_def)

lemma set_exactPut: "set (exactPut k v al) \<subseteq> insert (k, v) (set al)"
  by (induction al) (auto split: if_splits)

lemma exact_parseLine:
  assumes "(k, c) \<in> set (exact (parseLine r line))"
  shows "(k, c) \<in> set (exact r)
         \<or> (\<exists>d. isDigit d \<and> 1 \<le> digitVal d \<and> digitVal d \<le> 9 \<and> k = int (digitVal d) - 1
                \<and> line = [c, CHR '' '', CHR ''A'', CHR ''T'', CHR '' '', d])"
proof (cases "exactMatch line")
  case None
  with assms show ?thesis
    by (auto simp: parseLine_def Let_def split: option.splits)
next
  case (Some m)
  obtain l ds where m: "m = (l, ds)" by (cases m)
  from exactMatch_shape [OF Some [unfolded m]] obtain d
    where d: "ds = [d]" "isDigit d"
      and line: "line = [l, CHR '' '', CHR ''A'', CHR ''T'', CHR '' '', d]"
    by blast
  note pi = parseInt_digit [OF d(2)]
  show ?thesis
  proof (cases "1 \<le> digitVal d \<and> digitVal d \<le> 9")
    case True
    with Some m d pi have "parseLine r line = r\<lparr>exact := exactPut (int (digitVal d) - 1) l (exact r)\<rparr>"
      by (simp add: parseLine_def)
    with assms set_exactPut [of "int (digitVal d) - 1" l "exact r"]
    have "(k, c) = (int (digitVal d) - 1, l) \<or> (k, c) \<in> set (exact r)" by auto
    with True d line show ?thesis by auto
  next
    case False
    with Some m d pi have "exact (parseLine r line) = exact r"
      by (auto simp: parseLine_def Let_def split: option.splits)
    with assms show ?thesis by simp
  qed
qed

lemma exact_foldl_parseLine:
  assumes "(k, c) \<in> set (exact (foldl parseLine r ls))"
  shows "(k, c) \<in> set (exact r)
         \<or> (\<exists>d. isDigit d \<and> 1 \<le> digitVal d \<and> digitVal d \<le> 9 \<and> k = int (digitVal d) - 1
                \<and> [c, CHR '' '', CHR ''A'', CHR ''T'', CHR '' '', d] \<in> set ls)"
  using assms
proof (induction ls arbitrary: k c rule: rev_induct)
  case Nil
  then show ?case by simp
next
  case (snoc line ls)
  from snoc.prems have "(k, c) \<in> set (exact (parseLine (foldl parseLine r ls) line))" by simp
  from exact_parseLine [OF this] snoc.IH [of k c] show ?case by auto
qed

lemma set_AList_update: "set (AList.update k v al) \<subseteq> insert (k, v) (set al)"
  by (induction al) (auto split: if_splits)

lemma notAtPositions_origin:
  assumes "p \<in> set (notAtPositions g)"
  shows "0 \<le> p \<and> (\<exists>e \<in> set (split CHR '','' g). parseInt (trim e) = Some (p + 1))"
proof -
  from assms obtain e where e: "e \<in> set (split CHR '','' g)"
    and oe: "(case parseInt (trim e) of None \<Rightarrow> None
              | Some n \<Rightarrow> if n - 1 \<ge> 0 then Some (n - 1) else None) = Some p"
    by (auto simp: notAtPositions_def List.map_filter_def)
  from oe obtain n where "parseInt (trim e) = Some n" and "n - 1 \<ge> 0" and "p = n - 1"
    by (auto split: option.splits if_splits)
  with e show ?thesis by auto
qed

lemma present_parseLine:
  assumes "(L, ps) \<in> set (present (parseLine r line))" and "p \<in> set ps"
  shows "((L, ps) \<in> set (present r))
         \<or> (0 \<le> p \<and> presentMatch line = Some L
             \<and> (\<exists>g. notAtMatch line = Some g
                   \<and> (\<exists>e \<in> set (split CHR '','' g). parseInt (trim e) = Some (p + 1))))"
proof (cases "present (parseLine r line) = present r")
  case True
  with assms show ?thesis by simp
next
  case False
  then obtain letter where pm: "presentMatch line = Some letter"
    and pl: "present (parseLine r line) =
              AList.update letter
                (case notAtMatch line of None \<Rightarrow> [] | Some g \<Rightarrow> notAtPositions g) (present r)"
    by (auto simp: parseLine_def Let_def split: option.splits prod.splits if_splits)
  from assms(1) pl set_AList_update
  have "(L, ps) = (letter, case notAtMatch line of None \<Rightarrow> [] | Some g \<Rightarrow> notAtPositions g)
        \<or> (L, ps) \<in> set (present r)"
    by fastforce
  then show ?thesis
  proof
    assume eq: "(L, ps) = (letter, case notAtMatch line of None \<Rightarrow> [] | Some g \<Rightarrow> notAtPositions g)"
    with assms(2) obtain g where g: "notAtMatch line = Some g" and "p \<in> set (notAtPositions g)"
      by (cases "notAtMatch line") auto
    with notAtPositions_origin [of p g] pm eq show ?thesis by auto
  qed simp
qed

lemma present_foldl_parseLine:
  assumes "(L, ps) \<in> set (present (foldl parseLine r ls))" and "p \<in> set ps"
  shows "((L, ps) \<in> set (present r))
         \<or> (0 \<le> p \<and> (\<exists>line \<in> set ls. presentMatch line = Some L
             \<and> (\<exists>g. notAtMatch line = Some g
                   \<and> (\<exists>e \<in> set (split CHR '','' g). parseInt (trim e) = Some (p + 1)))))"
  using assms
proof (induction ls arbitrary: L ps rule: rev_induct)
  case Nil
  then show ?case by simp
next
  case (snoc line ls)
  from snoc.prems(1) have "(L, ps) \<in> set (present (parseLine (foldl parseLine r ls) line))"
    by simp
  from present_parseLine [OF this snoc.prems(2)] snoc.IH [of L ps] snoc.prems(2)
  show ?case by auto
qed

lemma split_nonempty: "split sep x \<noteq> []"
  by (induction x) (auto split: list.splits)

lemma split_append: "split sep (x @ sep # y) = split sep x @ split sep y"
proof (induction x)
  case Nil
  then show ?case by simp
next
  case (Cons c x)
  show ?case
  proof (cases "c = sep")
    case True
    with Cons show ?thesis by simp
  next
    case False
    from split_nonempty [of sep x] obtain w ws where "split sep x = w # ws"
      by (cases "split sep x") auto
    with False Cons show ?thesis by simp
  qed
qed

lemma split_without: "sep \<notin> set x \<Longrightarrow> split sep x = [x]"
  by (induction x) auto

lemma ruleLines_append:
  "ruleLines (a @ CHR 0x0A # b) = ruleLines a @ ruleLines b"
proof -
  have "toUpperChar CHR 0x0A = CHR 0x0A" by code_simp
  then have "toUpperCase (a @ CHR 0x0A # b) = toUpperCase a @ CHR 0x0A # toUpperCase b"
    by (simp add: toUpperCase_def)
  then show ?thesis by (simp add: ruleLines_def split_append)
qed

lemma digit_plain:
  assumes "isDigit d"
  shows "\<not> isLower d" and "\<not> isSpace d" and "\<not> isUpper d" and "d \<noteq> CHR 0x0A"
  using assms by (auto simp: isDigit_def isLower_def isSpace_def isUpper_def)

lemma upper_plain:
  assumes "isUpper l"
  shows "\<not> isLower l" and "\<not> isSpace l" and "l \<noteq> CHR 0x0A" and "l \<noteq> CHR '' ''"
  using assms by (auto simp: isLower_def isSpace_def isUpper_def)

lemma ruleLines_exact_line:
  assumes "isUpper l" and "ds \<noteq> []" and "list_all isDigit ds"
  shows "ruleLines (l # '' AT '' @ ds) = [l # '' AT '' @ ds]"
proof -
  let ?line = "l # '' AT '' @ ds"
  have c: "toUpperChar CHR '' '' = CHR '' ''" "toUpperChar CHR ''A'' = CHR ''A''"
    "toUpperChar CHR ''T'' = CHR ''T''"
    by code_simp+
  from assms(3) have "map toUpperChar ds = ds"
    by (induction ds) (auto simp: toUpperChar_def digit_plain)
  with c upper_plain(1) [OF assms(1)] have up: "toUpperCase ?line = ?line"
    by (simp add: toUpperCase_def toUpperChar_def)
  from assms(3) digit_plain(4) have "CHR 0x0A \<notin> set ds"
    by (auto simp: list_all_iff)
  with upper_plain(3) [OF assms(1)] have "CHR 0x0A \<notin> set ?line" by auto
  then have sp: "split CHR 0x0A ?line = [?line]" by (rule split_without)
  from upper_plain(2) [OF assms(1)] have dl: "dropWhile isSpace ?line = ?line" by simp
  from assms(2,3) have "\<not> isSpace (last ds)"
    by (simp add: digit_plain list_all_iff)
  with assms(2) have "dropWhile isSpace (rev ds) = rev ds"
    by (cases ds rule: rev_cases) auto
  moreover from assms(2,3) digit_plain(2) have "\<exists>x \<in> set ds. \<not> isSpace x"
    by (cases ds) (auto simp: list_all_iff)
  ultimately have "dropWhile isSpace (rev ?line) = rev ?line"
    by (auto simp: dropWhile_append)
  with dl have tr: "trim ?line = ?line" by (simp add: trim_def)
  show ?thesis
    unfolding ruleLines_def up sp using tr by simp
qed

lemma dropped_exact_line:
  assumes "isUpper l" and "ds \<noteq> []" and "list_all isDigit ds"
    and "\<not> (\<exists>d. ds = [d] \<and> 1 \<le> digitVal d)"
  shows "parseLine r (l # '' AT '' @ ds) = r"
proof -
  let ?line = "l # '' AT '' @ ds"
  have a: "absentMatch ?line = None" by (simp add: absentMatch_def)
  have p: "presentMatch ?line = None" by (simp add: presentMatch_def)
  have n: "lengthMatch ?line = None" by (simp add: lengthMatch_def)
  have e: "case exactMatch ?line of
             None \<Rightarrow> True
           | Some (l', d) \<Rightarrow> parseInt d = Some 0"
  proof (cases "exactMatch ?line")
    case None
    then show ?thesis by simp
  next
    case (Some m)
    obtain l' ds' where m: "m = (l', ds')" by (cases m)
    from exactMatch_shape [OF Some [unfolded m]] obtain d where "ds' = [d]" "isDigit d"
      "?line = [l', CHR '' '', CHR ''A'', CHR ''T'', CHR '' '', d]"
      by blast
    with assms(4) parseInt_digit [of d] Some m show ?thesis by auto
  qed
  show ?thesis
    using a p n e
    by (auto simp: parseLine_def Let_def split: option.splits prod.splits)
qed

lemma dropped_exact_line_text:
  assumes "isUpper l" and "ds \<noteq> []" and "list_all isDigit ds"
    and "\<not> (\<exists>d. ds = [d] \<and> 1 \<le> digitVal d)"
  shows "parseRules (a @ [CHR 0x0A] @ (l # '' AT '' @ ds) @ [CHR 0x0A] @ b)
         = parseRules (a @ [CHR 0x0A] @ b)"
proof -
  have "ruleLines (a @ [CHR 0x0A] @ (l # '' AT '' @ ds) @ [CHR 0x0A] @ b)
        = ruleLines a @ [l # '' AT '' @ ds] @ ruleLines b"
    using ruleLines_append [of a "(l # '' AT '' @ ds) @ CHR 0x0A # b"]
      ruleLines_append [of "l # '' AT '' @ ds" b]
      ruleLines_exact_line [OF assms(1,2,3)]
    by simp
  moreover have "ruleLines (a @ [CHR 0x0A] @ b) = ruleLines a @ ruleLines b"
    using ruleLines_append [of a b] by simp
  moreover have "parseLine r' (l # CHR '' '' # CHR ''A'' # CHR ''T'' # CHR '' '' # ds) = r'"
    for r'
    using dropped_exact_line [OF assms, of r'] by simp
  ultimately show ?thesis
    by (simp add: parseRules_def)
qed

text \<open>
  C6, as the claim states it, fails. The claim: every stored position, also a disallowed
  position of \<open>present\<close>, comes from a source digit from 1 to 9, and a source position
  outside 1 to 9 is dropped. The rule text \<open>A in word, not at 12\<close> stores the disallowed
  position 11, from the source position 12.
\<close>

theorem parseRules_present_position_not_a_digit:
  "present (parseRules ''A in word, not at 12'') = [(CHR ''A'', [11])]
   \<and> \<not> positionsFromDigits (parseRules ''A in word, not at 12'')"
  by code_simp

text \<open>
  C6, amended. For every rule text: every key of \<open>exact\<close> is \<open>d - 1\<close> for a digit \<open>d\<close>
  from 1 to 9 of an exact-position line \<open>L AT d\<close> of the text; every disallowed position
  of \<open>present\<close> is at least 0, and is \<open>n - 1\<close> for a number \<open>n\<close> parsed from an entry of the
  list after \<open>NOT AT\<close> of a presence line, with no upper bound; and an exact-position line
  whose position is not a single digit from 1 to 9 is dropped: it leaves the rule set as
  it is, and the text compiles as it does without the line.
\<close>

theorem parseRules_positions:
  "(\<forall>(k, c) \<in> set (exact (parseRules s)).
      \<exists>d. isDigit d \<and> 1 \<le> digitVal d \<and> digitVal d \<le> 9 \<and> k = int (digitVal d) - 1
          \<and> [c, CHR '' '', CHR ''A'', CHR ''T'', CHR '' '', d] \<in> set (ruleLines s))
   \<and> (\<forall>(L, ps) \<in> set (present (parseRules s)). \<forall>p \<in> set ps.
        0 \<le> p
        \<and> (\<exists>line \<in> set (ruleLines s). presentMatch line = Some L
             \<and> (\<exists>g. notAtMatch line = Some g
                   \<and> (\<exists>e \<in> set (split CHR '','' g). parseInt (trim e) = Some (p + 1)))))
   \<and> (isUpper l \<and> ds \<noteq> [] \<and> list_all isDigit ds \<and> \<not> (\<exists>d. ds = [d] \<and> 1 \<le> digitVal d) \<longrightarrow>
        parseLine r (l # '' AT '' @ ds) = r
        \<and> parseRules (a @ [CHR 0x0A] @ (l # '' AT '' @ ds) @ [CHR 0x0A] @ b)
            = parseRules (a @ [CHR 0x0A] @ b))"
proof -
  have 1: "\<exists>d. isDigit d \<and> 1 \<le> digitVal d \<and> digitVal d \<le> 9 \<and> k = int (digitVal d) - 1
          \<and> [c, CHR '' '', CHR ''A'', CHR ''T'', CHR '' '', d] \<in> set (ruleLines s)"
    if "(k, c) \<in> set (exact (parseRules s))" for k c
    using exact_foldl_parseLine [of k c defaultRules "ruleLines s"] that
    by (simp add: parseRules_def defaultRules_def)
  have 2: "0 \<le> p
        \<and> (\<exists>line \<in> set (ruleLines s). presentMatch line = Some L
             \<and> (\<exists>g. notAtMatch line = Some g
                   \<and> (\<exists>e \<in> set (split CHR '','' g). parseInt (trim e) = Some (p + 1))))"
    if "(L, ps) \<in> set (present (parseRules s))" and "p \<in> set ps" for L ps p
    using present_foldl_parseLine [of L ps defaultRules "ruleLines s" p] that
    by (simp add: parseRules_def defaultRules_def)
  from 1 2 dropped_exact_line [of l ds r] dropped_exact_line_text [of l ds a b]
  show ?thesis by blast
qed

theorem parseRules_positions_witness:
  "(2, CHR ''O'') \<in> set (exact (parseRules positionsText))
   \<and> (\<exists>d. isDigit d \<and> 1 \<le> digitVal d \<and> digitVal d \<le> 9 \<and> (2 :: int) = int (digitVal d) - 1
          \<and> [CHR ''O'', CHR '' '', CHR ''A'', CHR ''T'', CHR '' '', d]
              \<in> set (ruleLines positionsText))
   \<and> (CHR ''A'', [11]) \<in> set (present (parseRules positionsText))
   \<and> (\<exists>line g e. line \<in> set (ruleLines positionsText) \<and> presentMatch line = Some CHR ''A''
         \<and> notAtMatch line = Some g \<and> e \<in> set (split CHR '','' g)
         \<and> parseInt (trim e) = Some (11 + 1))
   \<and> isUpper CHR ''Q'' \<and> ''0'' \<noteq> [] \<and> list_all isDigit ''0'' \<and> digitVal CHR ''0'' = 0
   \<and> parseLine defaultRules (CHR ''Q'' # '' AT '' @ ''0'') = defaultRules
   \<and> parseRules (positionsText @ [CHR 0x0A] @ (CHR ''Q'' # '' AT '' @ ''0'') @ [CHR 0x0A] @ ''LENGTH: 6'')
       = parseRules (positionsText @ [CHR 0x0A] @ ''LENGTH: 6'')"
proof -
  note t = parseRules_positions
    [of positionsText "CHR ''Q''" "''0''" defaultRules positionsText "''LENGTH: 6''"]
  have e: "(2, CHR ''O'') \<in> set (exact (parseRules positionsText))" by code_simp
  have p: "(CHR ''A'', [11]) \<in> set (present (parseRules positionsText))" by code_simp
  have h: "isUpper CHR ''Q''" "''0'' \<noteq> []" "list_all isDigit ''0''" "digitVal CHR ''0'' = 0"
    by code_simp+
  from h(4) have n: "\<not> (\<exists>d. ''0'' = [d] \<and> 1 \<le> digitVal d)" by auto
  from t e have 1: "\<exists>d. isDigit d \<and> 1 \<le> digitVal d \<and> digitVal d \<le> 9
          \<and> (2 :: int) = int (digitVal d) - 1
          \<and> [CHR ''O'', CHR '' '', CHR ''A'', CHR ''T'', CHR '' '', d]
              \<in> set (ruleLines positionsText)"
    by blast
  from t p have 2: "\<exists>line g e. line \<in> set (ruleLines positionsText)
         \<and> presentMatch line = Some CHR ''A''
         \<and> notAtMatch line = Some g \<and> e \<in> set (split CHR '','' g)
         \<and> parseInt (trim e) = Some (11 + 1)"
    by fastforce
  from t h(1,2,3) n have 3: "parseLine defaultRules (CHR ''Q'' # '' AT '' @ ''0'') = defaultRules
   \<and> parseRules (positionsText @ [CHR 0x0A] @ (CHR ''Q'' # '' AT '' @ ''0'') @ [CHR 0x0A] @ ''LENGTH: 6'')
       = parseRules (positionsText @ [CHR 0x0A] @ ''LENGTH: 6'')"
    by blast
  from e p h 1 2 3 show ?thesis by blast
qed

section \<open>Properties of the retrying executor\<close>

text \<open>A response that is not a success, whatever its status, is followed by a wait and
  another attempt as long as it is not the last attempt: the \<open>throw\<close> of the last \<open>else\<close>
  branch is caught by the \<open>catch\<close> block of the same attempt.\<close>

lemma attemptLoop_failure_retried:
  assumes "Suc i < maxRetries" and "outcome i = Response status statusText b"
    and "\<not> ok status"
  shows "attemptLoop outcome maxRetries i delay waits
         = attemptLoop outcome maxRetries (Suc i) (delay * 2) (waits @ [delay])"
  using assms
  by (subst attemptLoop.simps)
    (auto simp: tryBlock_def split: body.splits errorMessage.splits)

text \<open>A failure response whose body is the JSON value \<open>null\<close> throws a \<open>TypeError\<close> in
  place of the status diagnostic; it is caught and retried in the same way.\<close>

lemma tryBlock_null_body:
  "\<not> ok status \<Longrightarrow> status \<noteq> 429 \<Longrightarrow>
     tryBlock maxRetries i (Response status statusText (Parsed p OfNull)) = Threw TypeError"
  by (simp add: tryBlock_def)

text \<open>
  C2, at the failing input: at most 5 attempts, initial delay 1000. The first attempt
  meets a response with status 500 and a message of the server, the second a success
  with payload 7. The claim has the call fail at the first attempt, with a message that
  includes the status 500. The code waits 1000 and makes the second attempt, whose
  payload it returns.
\<close>

theorem server_error_is_retried:
  "handleGeminiApiCall ''key'' serverError 5 1000 = (Inr 7, [1000])"
  by code_simp

section \<open>Properties of the collector\<close>

lemma pageLoop_ok_step:
  assumes "server p = Page status html" and "ok status"
    and "extractWordsFromHtml html n = Some ws"
  shows "pageLoop (Suc fuel) server n p acc fetched =
           (if getNextPageNumber html = Some (int p + 1)
            then pageLoop fuel server n (Suc p) (acc @ ws) (fetched @ [p])
            else (fetched @ [p], Some (uniqueWords (acc @ ws))))"
proof (cases "getNextPageNumber html")
  case None
  with assms show ?thesis by simp
next
  case (Some m)
  have "nat (int p + 1) = Suc p" by simp
  with Some assms show ?thesis by auto
qed

lemma pageLoop_failed_step:
  assumes "pageFailed (server p)"
  shows "pageLoop (Suc fuel) server n p acc fetched =
           (fetched @ [p], Some (if notFound (server p) \<and> 1 < p then uniqueWords acc else []))"
  using assms by (cases "server p") (auto simp: pageFailed_def notFound_def)







text \<open>With the rule set compiled from \<open>A at 1 / LENGTH: 0\<close> the collection requests
  page 1 and does not return, whatever the number of iterations allowed: the loop over
  \<open>exec\<close> in \<open>extractWordsFromHtml\<close> does not end, and the declared next page is never
  read.\<close>

lemma collection_hangs_at_length_zero:
  "fetchWordListByPosition (Suc fuel) twoPages (parseRules zeroText) = ([1], None)"
proof -
  have e: "exact (parseRules zeroText) = [(0, CHR ''A'')]"
    and l: "length_r (parseRules zeroText) = 0"
    by code_simp+
  have x: "extractWordsFromHtml pageOne 0 = None" by code_simp
  have p: "twoPages 1 = Page 200 pageOne" by (simp add: twoPages_def)
  have o: "ok 200" by (simp add: ok_def)
  from e l x p o show ?thesis
    by (simp add: fetchWordListByPosition_def)
qed




lemma uniqueWords_fold:
  "distinct seen \<Longrightarrow>
     distinct (fold (\<lambda>w seen. if w \<in> set seen then seen else seen @ [w]) ws seen)
     \<and> set (fold (\<lambda>w seen. if w \<in> set seen then seen else seen @ [w]) ws seen)
         = set seen \<union> set ws"
  by (induction ws arbitrary: seen) auto

lemma uniqueWords_dedup: "distinct (uniqueWords ws) \<and> set (uniqueWords ws) = set ws"
  using uniqueWords_fold [of "[]" ws] by (simp add: uniqueWords_def)

lemma pageLoop_run:
  assumes "\<forall>q. p \<le> q \<and> q < k \<longrightarrow>
             (\<exists>status. server q = Page status (html q) \<and> ok status)
             \<and> extractWordsFromHtml (html q) n = Some (pageWords q)
             \<and> getNextPageNumber (html q) = Some (int q + 1)"
    and "p \<le> k" and "pageFailed (server k)" and "k - p < fuel"
  shows "pageLoop fuel server n p acc fetched =
           (fetched @ [p ..< Suc k],
            Some (if notFound (server k) \<and> 1 < k
                  then uniqueWords (acc @ concat (map pageWords [p ..< k])) else []))"
  using assms
proof (induction fuel arbitrary: p acc fetched)
  case 0
  then show ?case by simp
next
  case (Suc fuel)
  show ?case
  proof (cases "p = k")
    case True
    with Suc.prems(3) pageLoop_failed_step [of server k fuel n acc fetched]
    show ?thesis by (simp del: pageLoop.simps)
  next
    case False
    with Suc.prems(2) have lt: "p < k" by simp
    with Suc.prems(1) obtain status where pg: "server p = Page status (html p)" "ok status"
      and ex: "extractWordsFromHtml (html p) n = Some (pageWords p)"
      and nx: "getNextPageNumber (html p) = Some (int p + 1)"
      by (metis order_refl)
    from pg ex nx
      pageLoop_ok_step [where server = server and p = p and html = "html p" and n = n
        and fuel = fuel and acc = acc and fetched = fetched and ws = "pageWords p"
        and status = status]
    have step: "pageLoop (Suc fuel) server n p acc fetched
                = pageLoop fuel server n (Suc p) (acc @ pageWords p) (fetched @ [p])"
      by (simp del: pageLoop.simps)
    from Suc.prems(1) have chain: "\<forall>q. Suc p \<le> q \<and> q < k \<longrightarrow>
             (\<exists>status. server q = Page status (html q) \<and> ok status)
             \<and> extractWordsFromHtml (html q) n = Some (pageWords q)
             \<and> getNextPageNumber (html q) = Some (int q + 1)"
      by simp
    from lt Suc.prems(4) have fu: "k - Suc p < fuel" and le: "Suc p \<le> k" by simp_all
    from lt have l1: "[p ..< Suc k] = p # [Suc p ..< Suc k]" and l2: "[p ..< k] = p # [Suc p ..< k]"
      by (simp_all add: upt_conv_Cons)
    show ?thesis
      unfolding step
        Suc.IH [where p = "Suc p" and acc = "acc @ pageWords p" and fetched = "fetched @ [p]",
          OF chain le Suc.prems(3) fu]
        l1 l2
      by simp
  qed
qed

text \<open>
  C4. Let the pages \<open>1, ..., k - 1\<close> be fetched with success, each declaring the next
  one, and let the fetch of page \<open>k\<close> fail: \<open>fetch\<close> rejects, or the response is not a
  success. Then the collection returns, and its result is the empty list, and not the
  tokens collected so far, unless the response is a 404 and \<open>k > 1\<close>: then the result is
  the tokens of the pages \<open>1, ..., k - 1\<close> without duplicates.
\<close>

theorem fatal_failure_empties_collection:
  assumes "exact R \<noteq> []"
    and "\<forall>q. 1 \<le> q \<and> q < k \<longrightarrow>
             (\<exists>status. server q = Page status (html q) \<and> ok status)
             \<and> extractWordsFromHtml (html q) (length_r R) = Some (pageWords q)
             \<and> getNextPageNumber (html q) = Some (int q + 1)"
    and "1 \<le> k" and "pageFailed (server k)" and "k \<le> fuel"
  shows "fetchWordListByPosition fuel server R =
           ([1 ..< Suc k],
            Some (if notFound (server k) \<and> 1 < k
                  then uniqueWords (concat (map pageWords [1 ..< k])) else []))
         \<and> distinct (uniqueWords (concat (map pageWords [1 ..< k])))
         \<and> set (uniqueWords (concat (map pageWords [1 ..< k])))
             = set (concat (map pageWords [1 ..< k]))"
proof -
  from assms(3,5) have "k - 1 < fuel" by simp
  from pageLoop_run [where p = 1 and acc = "[]" and fetched = "[]", OF assms(2,3,4) this]
  have "pageLoop fuel server (length_r R) 1 [] [] =
           ([1 ..< Suc k],
            Some (if notFound (server k) \<and> 1 < k
                  then uniqueWords (concat (map pageWords [1 ..< k])) else []))"
    by simp
  with assms(1) uniqueWords_dedup [of "concat (map pageWords [1 ..< k])"]
  show ?thesis by (simp add: fetchWordListByPosition_def)
qed

theorem fatal_failure_empties_collection_witness:
  "exact seedA \<noteq> []
   \<and> thenMissing 1 = Page 200 pageOne \<and> ok 200
   \<and> extractWordsFromHtml pageOne (length_r seedA) = Some [''ABODE'', ''ABOUT'', ''ABODE'']
   \<and> getNextPageNumber pageOne = Some 2
   \<and> pageFailed (thenMissing 2) \<and> notFound (thenMissing 2)
   \<and> fetchWordListByPosition 2 thenMissing seedA = ([1, 2], Some [''ABODE'', ''ABOUT''])"
proof -
  have e: "exact seedA \<noteq> []" by (simp add: seedA_def)
  have p1: "thenMissing 1 = Page 200 pageOne" by (simp add: thenMissing_def)
  have o: "ok 200" by (simp add: ok_def)
  have x: "extractWordsFromHtml pageOne (length_r seedA) = Some [''ABODE'', ''ABOUT'', ''ABODE'']"
    by code_simp
  have n: "getNextPageNumber pageOne = Some 2" by code_simp
  have f: "pageFailed (thenMissing 2)" and nf: "notFound (thenMissing 2)"
    by (simp_all add: thenMissing_def pageFailed_def notFound_def ok_def)
  have chain: "\<forall>q. 1 \<le> q \<and> q < 2 \<longrightarrow>
             (\<exists>status. thenMissing q = Page status ((\<lambda>q. pageOne) q) \<and> ok status)
             \<and> extractWordsFromHtml ((\<lambda>q. pageOne) q) (length_r seedA)
                 = Some ((\<lambda>q. [''ABODE'', ''ABOUT'', ''ABODE'']) q)
             \<and> getNextPageNumber ((\<lambda>q. pageOne) q) = Some (int q + 1)"
  proof (intro allI impI)
    fix q :: nat
    assume "1 \<le> q \<and> q < 2"
    then have "q = 1" by simp
    with p1 o x n show "(\<exists>status. thenMissing q = Page status ((\<lambda>q. pageOne) q) \<and> ok status)
             \<and> extractWordsFromHtml ((\<lambda>q. pageOne) q) (length_r seedA)
                 = Some ((\<lambda>q. [''ABODE'', ''ABOUT'', ''ABODE'']) q)
             \<and> getNextPageNumber ((\<lambda>q. pageOne) q) = Some (int q + 1)"
      by simp
  qed
  have u: "uniqueWords [''ABODE'', ''ABOUT'', ''ABODE''] = [''ABODE'', ''ABOUT'']" by code_simp
  have l: "[Suc 0 ..< 3] = [Suc 0, 2]" by code_simp
  have l': "[Suc 0 ..< 2] = [Suc 0]" by code_simp
  from fatal_failure_empties_collection
         [where R = seedA and k = 2 and server = thenMissing and fuel = 2
            and html = "\<lambda>q. pageOne" and pageWords = "\<lambda>q. [''ABODE'', ''ABOUT'', ''ABODE'']",
          OF e chain _ f]
  have "fetchWordListByPosition 2 thenMissing seedA = ([1, 2], Some [''ABODE'', ''ABOUT''])"
    using nf by (simp add: l l' u)
  with e p1 o x n f nf show ?thesis by blast
qed

end
